theory Spec2Isabelle
  imports Complex_Main "HOL-Library.Multiset"
begin

section \<open>The aggregation pipeline of the furniture sales dashboard\<close>

text \<open>
  The dashboard component \<^verbatim>\<open>src/furniture-dashboard.tsx\<close> fetches a CSV file, parses it and
  derives four values inside \<^verbatim>\<open>loadData\<close>: the yearly statistics with year-over-year growth,
  the totals over the whole dataset, the statistics per sub-category and the sales per
  sub-category for every year. This theory embeds that computation.

  Conventions of the embedding:
  \<^item> A JavaScript number is a value of \<open>jsnum\<close>: a real number, \<open>NaN\<close>, or one of the two
    infinities. In the pipeline itself sums and differences of the parsed amounts are
    computed exactly, and the sign of zero is not modelled; what is modelled of IEEE
    arithmetic there is the outcome of the divisions, which is where \<open>NaN\<close> and
    \<open>Infinity\<close> arise. The rounding of the additions is modelled separately, in the part
    on sums in double precision.
  \<^item> A plain JavaScript object is an association list of its own properties in the order
    in which \<^verbatim>\<open>Object.keys\<close> enumerates them: array-index keys first, ascending by value,
    then all other keys in the order of their creation.
\<close>

subsection \<open>Numbers\<close>

datatype jsnum = Fin real | PInf | NInf | NaN

text \<open>\<^verbatim>\<open>a / b\<close> for finite operands.\<close>

definition js_div :: "real \<Rightarrow> real \<Rightarrow> jsnum" where
  "js_div a b =
     (if b \<noteq> 0 then Fin (a / b)
      else if a = 0 then NaN
      else if 0 < a then PInf else NInf)"

text \<open>\<^verbatim>\<open>x * c\<close> for a finite right operand \<open>c\<close>.\<close>

fun js_mul :: "jsnum \<Rightarrow> real \<Rightarrow> jsnum" where
  "js_mul (Fin x) c = Fin (x * c)"
| "js_mul PInf c = (if 0 < c then PInf else if c < 0 then NInf else NaN)"
| "js_mul NInf c = (if 0 < c then NInf else if c < 0 then PInf else NaN)"
| "js_mul NaN c = NaN"

text \<open>\<^verbatim>\<open>a < b\<close>: every comparison with \<open>NaN\<close> is false.\<close>

fun js_lt :: "jsnum \<Rightarrow> jsnum \<Rightarrow> bool" where
  "js_lt NaN b = False"
| "js_lt a NaN = False"
| "js_lt (Fin x) (Fin y) = (x < y)"
| "js_lt PInf b = False"
| "js_lt a PInf = True"
| "js_lt a NInf = False"
| "js_lt NInf b = True"

subsection \<open>Rows and dates\<close>

text \<open>
  \<^verbatim>\<open>new Date(row['Order Date'])\<close>: the pipeline reads nothing of the date but
  \<^verbatim>\<open>getFullYear()\<close>, so a date is its local full year, or the invalid date that the
  constructor returns for text it cannot parse.
\<close>

datatype js_date = Date int | InvalidDate

text \<open>\<^verbatim>\<open>getFullYear()\<close>; \<open>None\<close> is the number \<open>NaN\<close> of an invalid date.\<close>

fun getFullYear :: "js_date \<Rightarrow> int option" where
  "getFullYear (Date y) = Some y"
| "getFullYear InvalidDate = None"

text \<open>
  One parsed CSV row, with the four columns that \<^verbatim>\<open>loadData\<close> reads. \<open>Sales\<close> and
  \<open>Profit\<close> are the finite numbers that the parser delivers for numeric cells;
  \<open>Sub_Category\<close> is the text of the property key that the cell becomes.
\<close>

record row =
  Order_Date :: js_date
  Sales :: real
  Profit :: real
  Sub_Category :: string

subsection \<open>Objects and their key order\<close>

type_synonym ('k, 'v) js_object = "('k \<times> 'v) list"

text \<open>
  \<open>comes_before idx k k'\<close>: a new key \<open>k\<close> is enumerated before the existing key \<open>k'\<close>.
  \<open>idx k\<close> is the array index that the key denotes, if it denotes one.
\<close>

definition comes_before :: "('k \<Rightarrow> nat option) \<Rightarrow> 'k \<Rightarrow> 'k \<Rightarrow> bool" where
  "comes_before idx k k' =
     (case idx k of
        None \<Rightarrow> False
      | Some n \<Rightarrow> (case idx k' of None \<Rightarrow> True | Some n' \<Rightarrow> n < n'))"

text \<open>Creating the property \<open>k\<close>, which the object does not have yet.\<close>

fun obj_define :: "('k \<Rightarrow> nat option) \<Rightarrow> 'k \<Rightarrow> 'v \<Rightarrow> ('k, 'v) js_object \<Rightarrow> ('k, 'v) js_object" where
  "obj_define idx k v [] = [(k, v)]"
| "obj_define idx k v ((k', v') # rest) =
     (if comes_before idx k k' then (k, v) # (k', v') # rest
      else (k', v') # obj_define idx k v rest)"

text \<open>
  The key of a year group is the text of \<^verbatim>\<open>getFullYear()\<close>. It is an array index when the
  year is an integer from 0 up to \<open>2^32 - 2\<close>; the texts of negative years and \<^verbatim>\<open>"NaN"\<close>
  are ordinary string keys.
\<close>

definition year_index :: "int option \<Rightarrow> nat option" where
  "year_index k =
     (case k of
        None \<Rightarrow> None
      | Some y \<Rightarrow> (if 0 \<le> y \<and> y < 4294967295 then Some (nat y) else None))"

text \<open>
  A sub-category key is an array index when it is the canonical decimal text of a number
  below \<open>2^32 - 1\<close>.
\<close>

definition is_digit :: "char \<Rightarrow> bool" where
  "is_digit c = (48 \<le> (of_char c :: nat) \<and> (of_char c :: nat) \<le> 57)"

definition digits_value :: "string \<Rightarrow> nat" where
  "digits_value s = foldl (\<lambda>a c. 10 * a + (of_char c - 48)) 0 s"

definition array_index :: "string \<Rightarrow> nat option" where
  "array_index s =
     (if s \<noteq> [] \<and> list_all is_digit s \<and> (length s = 1 \<or> hd s \<noteq> CHR ''0'')
         \<and> digits_value s < 4294967295
      then Some (digits_value s) else None)"

subsection \<open>The lodash functions\<close>

text \<open>
  \<^verbatim>\<open>_.groupBy(collection, iteratee)\<close> starts from the empty object and visits the elements
  in order: an element whose key the object already has is pushed onto that group, and
  otherwise the key is created with the one-element group.
\<close>

definition group_add ::
  "('k \<Rightarrow> nat option) \<Rightarrow> ('a \<Rightarrow> 'k) \<Rightarrow> ('k, 'a list) js_object \<Rightarrow> 'a \<Rightarrow> ('k, 'a list) js_object" where
  "group_add idx f obj x =
     (if map_of obj (f x) = None then obj_define idx (f x) [x] obj
      else map (\<lambda>(k, g). if k = f x then (k, g @ [x]) else (k, g)) obj)"

definition groupBy ::
  "('k \<Rightarrow> nat option) \<Rightarrow> ('a \<Rightarrow> 'k) \<Rightarrow> 'a list \<Rightarrow> ('k, 'a list) js_object" where
  "groupBy idx f xs = foldl (group_add idx f) [] xs"

text \<open>\<^verbatim>\<open>_.sumBy(array, iteratee)\<close>, which is 0 for the empty array.\<close>

definition sumBy :: "('a \<Rightarrow> real) \<Rightarrow> 'a list \<Rightarrow> real" where
  "sumBy f xs = sum_list (map f xs)"

text \<open>
  \<^verbatim>\<open>_.orderBy(collection, ['value'], ['desc'])\<close> for finite values: descending, and
  elements that compare equal keep their relative order.
\<close>

definition orderBy_desc :: "('a \<Rightarrow> real) \<Rightarrow> 'a list \<Rightarrow> 'a list" where
  "orderBy_desc f xs = sort_key (\<lambda>x. - f x) xs"

text \<open>\<^verbatim>\<open>parseInt(year)\<close> on the key of a year group.\<close>

fun parseInt :: "int option \<Rightarrow> jsnum" where
  "parseInt (Some y) = Fin (of_int y)"
| "parseInt None = NaN"

subsection \<open>The derived values\<close>

record YearlyData =
  year :: jsnum
  sales :: real
  profit :: real
  orders :: nat
  avgOrderValue :: jsnum
  salesGrowth :: jsnum
  profitGrowth :: jsnum

record TotalMetrics =
  totalSales :: real
  totalProfit :: real
  totalOrders :: nat
  totalAvgOrderValue :: jsnum

record SubCategoryData =
  sc_name :: string
  sc_value :: real
  sc_profit :: real
  sc_orders :: nat

text \<open>
  A row of the trend table is the object \<^verbatim>\<open>{year: ..., ...sums}\<close>: one property
  \<^verbatim>\<open>year\<close> and one property per sub-category, in the same name space.
\<close>

type_synonym trend_row = "string \<rightharpoonup> jsnum"

definition row_year :: "row \<Rightarrow> int option" where
  "row_year r = getFullYear (Order_Date r)"

text \<open>The groups by year, as both year pipelines compute them.\<close>

definition year_groups :: "row list \<Rightarrow> (int option, row list) js_object" where
  "year_groups data = groupBy year_index row_year data"

text \<open>The yearly statistics before the growth pass.\<close>

definition yearlyStats0 :: "row list \<Rightarrow> YearlyData list" where
  "yearlyStats0 data =
     map (\<lambda>(y, yearData).
            \<lparr> year = parseInt y,
              sales = sumBy Sales yearData,
              profit = sumBy Profit yearData,
              orders = length yearData,
              avgOrderValue = js_div (sumBy Sales yearData) (real (length yearData)),
              salesGrowth = Fin 0,
              profitGrowth = Fin 0 \<rparr>)
         (year_groups data)"

text \<open>
  \<^verbatim>\<open>yearlyStats.forEach((year, index) => { if (index > 0) ... })\<close>: the element at
  \<open>index\<close> gets its growth from the element at \<open>index - 1\<close>, whose totals the pass does
  not change.
\<close>

definition growth :: "real \<Rightarrow> real \<Rightarrow> jsnum" where
  "growth cur prev = js_mul (js_div (cur - prev) prev) 100"

definition calc_growth :: "YearlyData list \<Rightarrow> YearlyData list" where
  "calc_growth ys =
     map (\<lambda>i. if 0 < i
               then (ys ! i)\<lparr> salesGrowth := growth (sales (ys ! i)) (sales (ys ! (i - 1))),
                              profitGrowth := growth (profit (ys ! i)) (profit (ys ! (i - 1))) \<rparr>
               else ys ! i)
         [0 ..< length ys]"

definition yearlyStats :: "row list \<Rightarrow> YearlyData list" where
  "yearlyStats data = calc_growth (yearlyStats0 data)"

definition calcTotalMetrics :: "row list \<Rightarrow> TotalMetrics" where
  "calcTotalMetrics data =
     \<lparr> totalSales = sumBy Sales data,
       totalProfit = sumBy Profit data,
       totalOrders = length data,
       totalAvgOrderValue = js_div (sumBy Sales data) (real (length data)) \<rparr>"

text \<open>The groups by sub-category.\<close>

definition subcat_groups :: "row list \<Rightarrow> (string, row list) js_object" where
  "subcat_groups data = groupBy array_index Sub_Category data"

definition subCategoryStats0 :: "row list \<Rightarrow> SubCategoryData list" where
  "subCategoryStats0 data =
     map (\<lambda>(subCategory, subCatData).
            \<lparr> sc_name = subCategory,
              sc_value = sumBy Sales subCatData,
              sc_profit = sumBy Profit subCatData,
              sc_orders = length subCatData \<rparr>)
         (subcat_groups data)"

definition subCategoryStats :: "row list \<Rightarrow> SubCategoryData list" where
  "subCategoryStats data = orderBy_desc sc_value (subCategoryStats0 data)"

text \<open>
  One trend row: the spread of the sums comes after the property \<^verbatim>\<open>year\<close>, so a
  sub-category that is itself called \<^verbatim>\<open>year\<close> replaces it.
\<close>

definition trend_row_of :: "int option \<Rightarrow> row list \<Rightarrow> trend_row" where
  "trend_row_of y yearData =
     [''year'' \<mapsto> parseInt y] ++
     map_of (map (\<lambda>(c, subCatData). (c, Fin (sumBy Sales subCatData))) (subcat_groups yearData))"

definition subCategoryTrendsData :: "row list \<Rightarrow> trend_row list" where
  "subCategoryTrendsData data = map (\<lambda>(y, yearData). trend_row_of y yearData) (year_groups data)"

subsection \<open>The component state and \<^verbatim>\<open>loadData\<close>\<close>

record dashboard =
  yearlyData :: "YearlyData list"
  totalMetrics :: TotalMetrics
  subCategoryData :: "SubCategoryData list"
  subCategoryTrends :: "trend_row list"
  error :: "string option"

definition initial_dashboard :: dashboard where
  "initial_dashboard =
     \<lparr> yearlyData = [],
       totalMetrics = \<lparr> totalSales = 0, totalProfit = 0, totalOrders = 0,
                        totalAvgOrderValue = Fin 0 \<rparr>,
       subCategoryData = [],
       subCategoryTrends = [],
       error = None \<rparr>"

definition load_failed :: string where
  "load_failed = ''Failed to load dashboard data. Please try again later.''"

text \<open>
  \<^verbatim>\<open>loadData\<close>, from the response on: \<open>ok\<close> is \<^verbatim>\<open>response.ok\<close>, \<open>nerrors\<close> is
  \<^verbatim>\<open>parsedData.errors.length\<close> and \<open>data\<close> is \<^verbatim>\<open>parsedData.data\<close>. Both \<^verbatim>\<open>throw\<close>
  statements are caught by the one \<^verbatim>\<open>catch\<close>, which sets the error message only.
\<close>

definition loadData :: "bool \<Rightarrow> nat \<Rightarrow> row list \<Rightarrow> dashboard \<Rightarrow> dashboard" where
  "loadData ok nerrors data st =
     (if \<not> ok then st\<lparr> error := Some load_failed \<rparr>
      else if 0 < nerrors then st\<lparr> error := Some load_failed \<rparr>
      else \<lparr> yearlyData = yearlyStats data,
             totalMetrics = calcTotalMetrics data,
             subCategoryData = subCategoryStats data,
             subCategoryTrends = subCategoryTrendsData data,
             error = None \<rparr>)"

subsection \<open>Sums in double precision\<close>

text \<open>
  The sums above are exact. This part models the additions of \<^verbatim>\<open>_.sumBy\<close> as the
  double-precision additions that they are, for the property that compares sums taken in
  different groupings.
\<close>

text \<open>The number of binary digits of a natural number.\<close>

fun bit_length :: "nat \<Rightarrow> nat" where
  "bit_length n = (if n = 0 then 0 else Suc (bit_length (n div 2)))"

declare bit_length.simps [simp del]

text \<open>For \<open>0 < a\<close>, the exponent \<open>e\<close> with \<open>2^e \<le> a < 2^(e+1)\<close>.\<close>

definition binary_exponent :: "real \<Rightarrow> int" where
  "binary_exponent a =
     (if 1 \<le> a then int (bit_length (nat \<lfloor>a\<rfloor>)) - 1
      else - int (bit_length (nat (\<lceil>1 / a\<rceil> - 1))))"

definition pow2 :: "int \<Rightarrow> real" where
  "pow2 e = (if 0 \<le> e then 2 ^ nat e else 1 / 2 ^ nat (- e))"

text \<open>Rounding to the nearest integer, a tie to the even one.\<close>

definition round_half_even :: "real \<Rightarrow> int" where
  "round_half_even x =
     (if x - of_int \<lfloor>x\<rfloor> < 1 / 2 then \<lfloor>x\<rfloor>
      else if 1 / 2 < x - of_int \<lfloor>x\<rfloor> then \<lfloor>x\<rfloor> + 1
      else if even \<lfloor>x\<rfloor> then \<lfloor>x\<rfloor> else \<lfloor>x\<rfloor> + 1)"

text \<open>
  The double nearest to a real number (IEEE 754 binary64, round to nearest, ties to
  even): 53 significant bits, the spacing \<open>2^-1074\<close> below \<open>2^-1022\<close>, and an infinity
  from \<open>2^1024\<close> on.
\<close>

definition round_magnitude :: "real \<Rightarrow> real" where
  "round_magnitude a =
     (let q = pow2 (max (binary_exponent a) (- 1022) - 52)
      in of_int (round_half_even (a / q)) * q)"

definition round_double :: "real \<Rightarrow> jsnum" where
  "round_double x =
     (if x = 0 then Fin 0
      else if 2 ^ 1024 \<le> round_magnitude \<bar>x\<bar> then (if 0 < x then PInf else NInf)
      else if 0 < x then Fin (round_magnitude \<bar>x\<bar>) else Fin (- round_magnitude \<bar>x\<bar>))"

text \<open>\<^verbatim>\<open>a + b\<close> on numbers.\<close>

fun js_add :: "jsnum \<Rightarrow> jsnum \<Rightarrow> jsnum" where
  "js_add (Fin a) (Fin b) = round_double (a + b)"
| "js_add NaN b = NaN"
| "js_add a NaN = NaN"
| "js_add PInf NInf = NaN"
| "js_add NInf PInf = NaN"
| "js_add PInf b = PInf"
| "js_add NInf b = NInf"
| "js_add a PInf = PInf"
| "js_add a NInf = NInf"

text \<open>
  \<^verbatim>\<open>_.sumBy(array, iteratee)\<close> with the additions as JavaScript does them: the result
  starts as the first value and every further value is added to it, from left to right;
  it is 0 for the empty array. A value is the double nearest to the amount written in the
  cell, as \<^verbatim>\<open>parseFloat\<close> delivers it.
\<close>

fun sumBy_double :: "('a \<Rightarrow> real) \<Rightarrow> 'a list \<Rightarrow> jsnum" where
  "sumBy_double f [] = Fin 0"
| "sumBy_double f (x # xs) =
     foldl (\<lambda>result y. js_add result (round_double (f y))) (round_double (f x)) xs"

text \<open>
  The field \<^verbatim>\<open>sales\<close> of every entry of the yearly statistics, and the field
  \<^verbatim>\<open>totalSales\<close> of the totals, with these sums.
\<close>

definition yearly_sales_double :: "row list \<Rightarrow> jsnum list" where
  "yearly_sales_double data =
     map (\<lambda>(y, yearData). sumBy_double Sales yearData) (year_groups data)"

definition total_sales_double :: "row list \<Rightarrow> jsnum" where
  "total_sales_double data = sumBy_double Sales data"

subsection \<open>Notions used to state the properties\<close>

text \<open>
  \<open>enum_before idx a b\<close>: in an object, the key \<open>a\<close> is enumerated before the key \<open>b\<close>
  whenever both are present: array indices ascending, then the other keys.
\<close>

definition enum_before :: "('k \<Rightarrow> nat option) \<Rightarrow> 'k \<Rightarrow> 'k \<Rightarrow> bool" where
  "enum_before idx a b =
     (case idx a of
        None \<Rightarrow> idx b = None
      | Some n \<Rightarrow> (case idx b of None \<Rightarrow> True | Some m \<Rightarrow> n < m))"

text \<open>The position at which \<open>x\<close> is first seen in \<open>xs\<close>.\<close>

definition first_index :: "'a list \<Rightarrow> 'a \<Rightarrow> nat" where
  "first_index xs x = length (takeWhile (\<lambda>y. y \<noteq> x) xs)"

text \<open>The years of the rows whose date is valid, in input order.\<close>

definition valid_years :: "row list \<Rightarrow> int list" where
  "valid_years data = List.map_filter row_year data"

text \<open>Every valid date has a year whose text is an array index.\<close>

definition years_in_range :: "row list \<Rightarrow> bool" where
  "years_in_range data =
     list_all (\<lambda>r. case Order_Date r of Date y \<Rightarrow> 0 \<le> y \<and> y < 4294967295 | InvalidDate \<Rightarrow> True) data"

subsection \<open>Example data\<close>

text \<open>Two chairs and one table sold in 2020 and 2021.\<close>

definition example_rows :: "row list" where
  "example_rows =
     [\<lparr> Order_Date = Date 2020, Sales = 100, Profit = 10, Sub_Category = ''Chairs'' \<rparr>,
      \<lparr> Order_Date = Date 2020, Sales = 50, Profit = 5, Sub_Category = ''Tables'' \<rparr>,
      \<lparr> Order_Date = Date 2021, Sales = 150, Profit = 20, Sub_Category = ''Chairs'' \<rparr>]"

text \<open>A year without sales or profit, followed by a year with sales.\<close>

definition zero_year_rows :: "row list" where
  "zero_year_rows =
     [\<lparr> Order_Date = Date 2020, Sales = 0, Profit = 0, Sub_Category = ''Chairs'' \<rparr>,
      \<lparr> Order_Date = Date 2021, Sales = 10, Profit = 0, Sub_Category = ''Chairs'' \<rparr>]"

text \<open>
  A sale in 2020 and one in the year \<open>-1\<close>, which is the year of the date text
  \<^verbatim>\<open>-000001-06-15T12:00:00Z\<close>.
\<close>

definition bce_rows :: "row list" where
  "bce_rows =
     [\<lparr> Order_Date = Date 2020, Sales = 100, Profit = 10, Sub_Category = ''Chairs'' \<rparr>,
      \<lparr> Order_Date = Date (- 1), Sales = 50, Profit = 5, Sub_Category = ''Chairs'' \<rparr>]"

text \<open>Two sub-categories with equal sales, the second one labelled with a number.\<close>

definition numeric_label_rows :: "row list" where
  "numeric_label_rows =
     [\<lparr> Order_Date = Date 2020, Sales = 10, Profit = 1, Sub_Category = ''Chairs'' \<rparr>,
      \<lparr> Order_Date = Date 2020, Sales = 10, Profit = 1, Sub_Category = ''7'' \<rparr>]"

text \<open>Three sub-categories, two of them with equal sales.\<close>

definition tie_rows :: "row list" where
  "tie_rows =
     [\<lparr> Order_Date = Date 2020, Sales = 10, Profit = 1, Sub_Category = ''Chairs'' \<rparr>,
      \<lparr> Order_Date = Date 2020, Sales = 20, Profit = 2, Sub_Category = ''Tables'' \<rparr>,
      \<lparr> Order_Date = Date 2021, Sales = 10, Profit = 3, Sub_Category = ''Bookcases'' \<rparr>]"

text \<open>A sub-category that is called \<^verbatim>\<open>year\<close>, sold in 2020 only.\<close>

definition year_label_rows :: "row list" where
  "year_label_rows =
     [\<lparr> Order_Date = Date 2020, Sales = 5, Profit = 1, Sub_Category = ''year'' \<rparr>,
      \<lparr> Order_Date = Date 2021, Sales = 10, Profit = 1, Sub_Category = ''Chairs'' \<rparr>]"

text \<open>A row whose order date does not parse, before a row of 2020.\<close>

definition invalid_date_rows :: "row list" where
  "invalid_date_rows =
     [\<lparr> Order_Date = InvalidDate, Sales = 5, Profit = 1, Sub_Category = ''Chairs'' \<rparr>,
      \<lparr> Order_Date = Date 2020, Sales = 10, Profit = 2, Sub_Category = ''Chairs'' \<rparr>]"




section \<open>Properties of the grouping\<close>

subsection \<open>Every group is the rows of its key, in input order\<close>

lemma fst_obj_define: "fst ` set (obj_define idx k v obj) = insert k (fst ` set obj)"
proof (induction obj)
  case Nil
  show ?case by simp
next
  case (Cons p obj)
  obtain k' v' where p: "p = (k', v')" by (cases p)
  show ?case using Cons by (simp add: p insert_commute)
qed

lemma map_of_obj_define:
  "map_of obj k = None \<Longrightarrow> map_of (obj_define idx k v obj) = (map_of obj)(k \<mapsto> v)"
  by (induction obj) (auto simp: fun_eq_iff split: if_splits)

lemma distinct_obj_define:
  "distinct (map fst obj) \<Longrightarrow> k \<notin> fst ` set obj \<Longrightarrow> distinct (map fst (obj_define idx k v obj))"
proof (induction obj)
  case Nil
  then show ?case by simp
next
  case (Cons p obj)
  obtain k' v' where p: "p = (k', v')" by (cases p)
  from Cons show ?case
    using fst_obj_define [of idx k v obj] by (auto simp: p)
qed

lemma fst_group_push:
  "map (fst \<circ> (\<lambda>(k, g). if k = a then (k, g @ [x]) else (k, g))) obj = map fst obj"
  by (induction obj) auto

lemma map_of_group_push:
  "map_of (map (\<lambda>(k, g). if k = a then (k, g @ [x]) else (k, g)) obj) k' =
     (if k' = a then map_option (\<lambda>g. g @ [x]) (map_of obj a) else map_of obj k')"
  by (induction obj) auto

lemma distinct_group_add:
  "distinct (map fst obj) \<Longrightarrow> distinct (map fst (group_add idx f obj x))"
  by (simp add: group_add_def fst_group_push distinct_obj_define map_of_eq_None_iff)

lemma distinct_groupBy: "distinct (map fst (groupBy idx f xs))"
  unfolding groupBy_def by (induction xs rule: rev_induct) (simp_all add: distinct_group_add)

lemma map_of_groupBy:
  "map_of (groupBy idx f xs) k =
     (if k \<in> f ` set xs then Some (filter (\<lambda>x. f x = k) xs) else None)"
proof (induction xs arbitrary: k rule: rev_induct)
  case Nil
  show ?case by (simp add: groupBy_def)
next
  case (snoc x xs)
  have step: "groupBy idx f (xs @ [x]) = group_add idx f (groupBy idx f xs) x"
    by (simp add: groupBy_def)
  show ?case
  proof (cases "f x \<in> f ` set xs")
    case True
    then have "map_of (groupBy idx f xs) (f x) \<noteq> None" using snoc by simp
    then show ?thesis
      using snoc True by (auto simp: step group_add_def map_of_group_push)
  next
    case False
    then have none: "map_of (groupBy idx f xs) (f x) = None" using snoc by simp
    have "filter (\<lambda>y. f y = f x) xs = []" unfolding filter_empty_conv using False by (metis imageI)
    then show ?thesis
      using snoc False by (auto simp: step group_add_def none map_of_obj_define)
  qed
qed

lemma groupBy_entry:
  "(k, g) \<in> set (groupBy idx f xs) \<longleftrightarrow> k \<in> f ` set xs \<and> g = filter (\<lambda>x. f x = k) xs"
proof -
  have "(k, g) \<in> set (groupBy idx f xs) \<longleftrightarrow> map_of (groupBy idx f xs) k = Some g"
    using distinct_groupBy [of idx f xs] by (auto dest: map_of_SomeD)
  then show ?thesis by (auto simp: map_of_groupBy)
qed

lemma keys_groupBy: "set (map fst (groupBy idx f xs)) = f ` set xs"
proof -
  have "set (map fst (groupBy idx f xs)) = dom (map_of (groupBy idx f xs))"
    by (simp add: dom_map_of_conv_image_fst)
  also have "\<dots> = f ` set xs" by (auto simp: dom_def map_of_groupBy)
  finally show ?thesis .
qed


lemma group_nonempty: "(k, g) \<in> set (groupBy idx f xs) \<Longrightarrow> g \<noteq> []"
  by (auto simp: groupBy_entry filter_empty_conv)

subsection \<open>Grouping partitions the rows\<close>






lemma length_calc_growth: "length (calc_growth ys) = length ys"
  by (simp add: calc_growth_def)


lemma year_calc_growth: "map year (calc_growth ys) = map year ys"
  by (rule nth_equalityI) (simp_all add: calc_growth_def)

subsection \<open>Unfolding the pipeline on concrete rows\<close>

lemmas eval_defs =
  loadData_def initial_dashboard_def yearlyStats_def yearlyStats0_def calc_growth_def growth_def
  calcTotalMetrics_def subCategoryStats_def subCategoryStats0_def subCategoryTrendsData_def
  trend_row_of_def year_groups_def subcat_groups_def groupBy_def group_add_def row_year_def
  year_index_def array_index_def is_digit_def digits_value_def comes_before_def sumBy_def
  orderBy_desc_def js_div_def

section \<open>The totals over the whole dataset\<close>

text \<open>
  C1, as the specification states it, does not hold. With no rows, \<^verbatim>\<open>loadData\<close> reports no
  error, and the average order value is the quotient \<open>0 / 0\<close>, which is \<open>NaN\<close>.
\<close>

theorem empty_dataset_not_reported:
  "error (loadData True 0 [] initial_dashboard) = None \<and>
   totalAvgOrderValue (totalMetrics (loadData True 0 [] initial_dashboard)) = NaN"
  by (simp add: loadData_def calcTotalMetrics_def sumBy_def js_div_def)

text \<open>
  C1, amended: for the empty input collection the whole-dataset aggregate does not fail.
  Whatever the state was, \<^verbatim>\<open>loadData\<close> clears the error, the three lists are empty, the
  total sales, the total profit and the number of orders are 0, and the average order
  value is \<open>NaN\<close>.
\<close>

theorem empty_dataset_totals:
  "loadData True 0 [] st =
     \<lparr> yearlyData = [],
       totalMetrics = \<lparr> totalSales = 0, totalProfit = 0, totalOrders = 0,
                        totalAvgOrderValue = NaN \<rparr>,
       subCategoryData = [],
       subCategoryTrends = [],
       error = None \<rparr>"
  by (simp add: eval_defs)



section \<open>The yearly statistics\<close>

subsection \<open>The rounding of the sums\<close>

lemma bit_length_bounds:
  "0 < n \<Longrightarrow> 2 ^ (bit_length n - 1) \<le> n \<and> n < 2 ^ bit_length n"
proof (induction n rule: bit_length.induct)
  case (1 n)
  show ?case
  proof (cases "n div 2 = 0")
    case True
    then have "n = 1" using "1.prems" by (auto simp: div_eq_0_iff)
    then show ?thesis by (simp add: bit_length.simps)
  next
    case False
    define m where "m = n div 2"
    have m: "0 < m" using False by (simp add: m_def)
    have ih: "2 ^ (bit_length m - 1) \<le> m \<and> m < 2 ^ bit_length m"
      using "1.IH" "1.prems" m unfolding m_def by simp
    have pos: "0 < bit_length m" using m by (subst bit_length.simps) simp
    have len: "bit_length n = Suc (bit_length m)"
      using "1.prems" by (subst bit_length.simps) (simp add: m_def)
    have "2 * m \<le> n" "n < 2 * m + 2" unfolding m_def by arith+
    moreover have "2 * 2 ^ (bit_length m - 1) = (2::nat) ^ bit_length m"
      using pos by (cases "bit_length m") simp_all
    ultimately show ?thesis using ih unfolding len by auto
  qed
qed

lemma binary_exponent_bounds:
  assumes "0 < a"
  shows "pow2 (binary_exponent a) \<le> a \<and> a < pow2 (binary_exponent a + 1)"
proof (cases "1 \<le> a")
  case True
  define n where "n = nat \<lfloor>a\<rfloor>"
  have n: "0 < n" using True by (simp add: n_def)
  have na: "real n \<le> a" "a < real n + 1" using True by (simp_all add: n_def)
  from bit_length_bounds [OF n]
  have b: "2 ^ (bit_length n - 1) \<le> n" "n < 2 ^ bit_length n" by simp_all
  have pos: "0 < bit_length n" using n by (subst bit_length.simps) simp
  have e: "binary_exponent a = int (bit_length n - 1)"
    using True pos by (simp add: binary_exponent_def n_def [symmetric] of_nat_diff Suc_le_eq)
  have e1: "nat (int (bit_length n - 1) + 1) = bit_length n" using pos by simp
  have lo: "(2::real) ^ (bit_length n - 1) \<le> real n"
    using of_nat_mono [OF b(1), where 'a = real] by simp
  have hi: "real n + 1 \<le> 2 ^ bit_length n"
    using of_nat_mono [of "Suc n" "2 ^ bit_length n", where 'a = real] b(2) by simp
  have p1: "pow2 (binary_exponent a) = 2 ^ (bit_length n - 1)"
    by (simp add: e pow2_def)
  have p2: "pow2 (binary_exponent a + 1) = 2 ^ bit_length n"
    unfolding e using e1 by (simp add: pow2_def)
  show ?thesis unfolding p1 p2 using lo hi na by linarith
next
  case False
  define k where "k = nat (\<lceil>1 / a\<rceil> - 1)"
  have inv: "1 < 1 / a" using assms False by simp
  then have c: "2 \<le> \<lceil>1 / a\<rceil>" by linarith
  then have k: "0 < k" by (simp add: k_def)
  have ka: "real k < 1 / a" "1 / a \<le> real k + 1"
    using c by (simp_all add: k_def) linarith+
  from bit_length_bounds [OF k]
  have b: "2 ^ (bit_length k - 1) \<le> k" "k < 2 ^ bit_length k" by simp_all
  have pos: "0 < bit_length k" using k by (subst bit_length.simps) simp
  have e: "binary_exponent a = - int (bit_length k)"
    using False by (simp add: binary_exponent_def k_def [symmetric])
  have lo: "(2::real) ^ (bit_length k - 1) < 1 / a"
  proof -
    have "(2::real) ^ (bit_length k - 1) \<le> real k"
      using of_nat_mono [OF b(1), where 'a = real] by simp
    then show ?thesis using ka by linarith
  qed
  have hi: "1 / a \<le> (2::real) ^ bit_length k"
  proof -
    have "real k + 1 \<le> 2 ^ bit_length k"
      using of_nat_mono [of "Suc k" "2 ^ bit_length k", where 'a = real] b(2) by simp
    then show ?thesis using ka by linarith
  qed
  have one: "1 / 2 ^ bit_length k \<le> a"
    using hi assms by (simp add: field_simps)
  have two: "a < 1 / 2 ^ (bit_length k - 1)"
    using lo assms by (simp add: field_simps)
  have p1: "pow2 (binary_exponent a) = 1 / 2 ^ bit_length k"
    using pos by (simp add: e pow2_def)
  have p2: "pow2 (binary_exponent a + 1) = 1 / 2 ^ (bit_length k - 1)"
  proof (cases "bit_length k = 1")
    case True
    then show ?thesis by (simp add: e pow2_def)
  next
    case False
    then have "1 < bit_length k" using pos by simp
    then have "- int (bit_length k) + 1 < 0" "nat (int (bit_length k) - 1) = bit_length k - 1"
      by simp_all
    then show ?thesis by (simp add: e pow2_def)
  qed
  show ?thesis unfolding p1 p2 using one two by simp
qed

lemma round_half_even_nearest: "\<bar>of_int (round_half_even x) - x\<bar> \<le> 1 / 2"
  unfolding round_half_even_def by (simp add: abs_le_iff)

lemmas double_defs =
  round_double_def round_magnitude_def binary_exponent_def pow2_def round_half_even_def
  bit_length.simps Let_def yearly_sales_double_def total_sales_double_def

text \<open>The rounding on a known sum: \<open>0.1 + 0.2\<close> is \<open>0.30000000000000004\<close>.\<close>

lemma one_tenth_plus_one_fifth:
  "js_add (round_double (1 / 10)) (round_double (2 / 10)) =
     Fin (5404319552844596 / 18014398509481984) \<and>
   round_double (3 / 10) = Fin (5404319552844595 / 18014398509481984)"
  by (simp add: double_defs)

subsection \<open>The year groups hold every row once\<close>






subsection \<open>The growth pass and the entries of the statistics\<close>

lemma nth_calc_growth:
  "i < length ys \<Longrightarrow>
   calc_growth ys ! i =
     (if 0 < i
      then (ys ! i)\<lparr> salesGrowth := growth (sales (ys ! i)) (sales (ys ! (i - 1))),
                     profitGrowth := growth (profit (ys ! i)) (profit (ys ! (i - 1))) \<rparr>
      else ys ! i)"
  by (cases i) (simp_all add: calc_growth_def)

lemma growth_zero_prev:
  "growth cur 0 = (if cur = 0 then NaN else if 0 < cur then PInf else NInf)"
  by (simp add: growth_def js_div_def)


lemma yearlyStats0_entry:
  "y \<in> set (yearlyStats0 data) \<Longrightarrow>
   1 \<le> orders y \<and> avgOrderValue y = Fin (sales y / real (orders y))"
proof -
  assume "y \<in> set (yearlyStats0 data)"
  then obtain k g where kg: "(k, g) \<in> set (year_groups data)"
    and y: "y = \<lparr> year = parseInt k, sales = sumBy Sales g, profit = sumBy Profit g,
                   orders = length g, avgOrderValue = js_div (sumBy Sales g) (real (length g)),
                   salesGrowth = Fin 0, profitGrowth = Fin 0 \<rparr>"
    by (auto simp: yearlyStats0_def)
  from kg have "g \<noteq> []" unfolding year_groups_def by (rule group_nonempty)
  then have "0 < length g" by simp
  then show ?thesis by (simp add: y js_div_def Suc_le_eq)
qed

lemma calc_growth_entry:
  "y \<in> set (calc_growth ys) \<Longrightarrow>
   \<exists>y0 \<in> set ys. orders y = orders y0 \<and> sales y = sales y0 \<and> avgOrderValue y = avgOrderValue y0"
proof -
  assume "y \<in> set (calc_growth ys)"
  then obtain i where i: "i < length ys" and y: "y = calc_growth ys ! i"
    by (auto simp: in_set_conv_nth length_calc_growth)
  have "ys ! i \<in> set ys" using i by simp
  moreover have "orders y = orders (ys ! i) \<and> sales y = sales (ys ! i) \<and>
                 avgOrderValue y = avgOrderValue (ys ! i)"
    using i by (simp add: y nth_calc_growth)
  ultimately show ?thesis by blast
qed

lemma subCategoryStats0_entry:
  "s \<in> set (subCategoryStats0 data) \<Longrightarrow> 1 \<le> sc_orders s"
proof -
  assume "s \<in> set (subCategoryStats0 data)"
  then obtain k g where kg: "(k, g) \<in> set (subcat_groups data)" and s: "sc_orders s = length g"
    by (auto simp: subCategoryStats0_def)
  from kg have "g \<noteq> []" unfolding subcat_groups_def by (rule group_nonempty)
  then show ?thesis by (simp add: s Suc_le_eq)
qed

text \<open>
  C10: no group of the year grouping or of the sub-category grouping is empty. Hence every
  entry of the yearly statistics and of the sub-category statistics counts at least one
  order, and the average order value of a year is the finite quotient of its sales by its
  number of orders. The number of orders of the whole dataset, in contrast, is 0 for the
  empty input.
\<close>

theorem groups_never_empty:
  "(\<forall>p \<in> set (year_groups data). snd p \<noteq> []) \<and>
   (\<forall>p \<in> set (subcat_groups data). snd p \<noteq> []) \<and>
   (\<forall>y \<in> set (yearlyStats data).
      1 \<le> orders y \<and> avgOrderValue y = Fin (sales y / real (orders y))) \<and>
   (\<forall>s \<in> set (subCategoryStats data). 1 \<le> sc_orders s) \<and>
   totalOrders (calcTotalMetrics []) = 0"
proof -
  have a: "\<forall>p \<in> set (year_groups data). snd p \<noteq> []"
    unfolding year_groups_def using group_nonempty by fastforce
  have b: "\<forall>p \<in> set (subcat_groups data). snd p \<noteq> []"
    unfolding subcat_groups_def using group_nonempty by fastforce
  have c: "\<forall>y \<in> set (yearlyStats data).
      1 \<le> orders y \<and> avgOrderValue y = Fin (sales y / real (orders y))"
    unfolding yearlyStats_def using calc_growth_entry yearlyStats0_entry by metis
  have d: "\<forall>s \<in> set (subCategoryStats data). 1 \<le> sc_orders s"
    using subCategoryStats0_entry by (auto simp: subCategoryStats_def orderBy_desc_def)
  have e: "totalOrders (calcTotalMetrics []) = 0"
    by (simp add: calcTotalMetrics_def)
  from a b c d e show ?thesis by blast
qed

text \<open>
  C10 on the example: the first group of each grouping and the first entry of each list of
  statistics.
\<close>

theorem groups_never_empty_witness:
  "hd (year_groups example_rows) \<in> set (year_groups example_rows) \<and>
   snd (hd (year_groups example_rows)) \<noteq> [] \<and>
   hd (subcat_groups example_rows) \<in> set (subcat_groups example_rows) \<and>
   snd (hd (subcat_groups example_rows)) \<noteq> [] \<and>
   hd (yearlyStats example_rows) \<in> set (yearlyStats example_rows) \<and>
   1 \<le> orders (hd (yearlyStats example_rows)) \<and>
   avgOrderValue (hd (yearlyStats example_rows)) = Fin 75 \<and>
   hd (subCategoryStats example_rows) \<in> set (subCategoryStats example_rows) \<and>
   1 \<le> sc_orders (hd (subCategoryStats example_rows))"
  using groups_never_empty [of example_rows]
  by (simp add: example_rows_def eval_defs)

text \<open>
  C2, as the specification states it, does not hold. The year 2020 has neither sales nor
  profit, and the growth of 2021 is \<open>Infinity\<close> for the sales and \<open>NaN\<close> for the profit.
\<close>

theorem zero_previous_year_growth:
  "map salesGrowth (yearlyStats zero_year_rows) = [Fin 0, PInf] \<and>
   map profitGrowth (yearlyStats zero_year_rows) = [Fin 0, NaN]"
  by (simp add: zero_year_rows_def eval_defs)

text \<open>
  C2, amended: there is no policy for a zero total of the preceding entry. When the sales
  of the preceding entry are zero, the sales growth is \<open>NaN\<close> if the sales of the entry
  are zero as well, and an infinity otherwise; the same holds for the profit.
\<close>

theorem growth_after_zero_year:
  "0 < i \<Longrightarrow> i < length (yearlyStats data) \<Longrightarrow>
   (sales (yearlyStats data ! (i - 1)) = 0 \<longrightarrow>
      (sales (yearlyStats data ! i) = 0 \<longrightarrow> salesGrowth (yearlyStats data ! i) = NaN) \<and>
      (sales (yearlyStats data ! i) \<noteq> 0 \<longrightarrow>
         salesGrowth (yearlyStats data ! i) = PInf \<or> salesGrowth (yearlyStats data ! i) = NInf)) \<and>
   (profit (yearlyStats data ! (i - 1)) = 0 \<longrightarrow>
      (profit (yearlyStats data ! i) = 0 \<longrightarrow> profitGrowth (yearlyStats data ! i) = NaN) \<and>
      (profit (yearlyStats data ! i) \<noteq> 0 \<longrightarrow>
         profitGrowth (yearlyStats data ! i) = PInf \<or> profitGrowth (yearlyStats data ! i) = NInf))"
proof -
  assume i: "0 < i" "i < length (yearlyStats data)"
  define ys where "ys = yearlyStats0 data"
  have len: "i < length ys" "i - 1 < length ys"
    using i by (simp_all add: yearlyStats_def ys_def length_calc_growth)
  have cur: "yearlyStats data ! i =
      (ys ! i)\<lparr> salesGrowth := growth (sales (ys ! i)) (sales (ys ! (i - 1))),
                profitGrowth := growth (profit (ys ! i)) (profit (ys ! (i - 1))) \<rparr>"
    using i len by (simp add: yearlyStats_def ys_def [symmetric] nth_calc_growth)
  have prev: "sales (yearlyStats data ! (i - 1)) = sales (ys ! (i - 1))"
             "profit (yearlyStats data ! (i - 1)) = profit (ys ! (i - 1))"
    using len by (simp_all add: yearlyStats_def ys_def [symmetric] nth_calc_growth)
  show ?thesis
    unfolding cur prev by (simp add: growth_zero_prev)
qed

text \<open>C2, amended, on the two years above, at the second entry.\<close>

theorem growth_after_zero_year_witness:
  "(0::nat) < 1 \<and> 1 < length (yearlyStats zero_year_rows) \<and>
   sales (yearlyStats zero_year_rows ! (1 - 1)) = 0 \<and>
   sales (yearlyStats zero_year_rows ! 1) \<noteq> 0 \<and>
   salesGrowth (yearlyStats zero_year_rows ! 1) = PInf \<and>
   profit (yearlyStats zero_year_rows ! (1 - 1)) = 0 \<and>
   profit (yearlyStats zero_year_rows ! 1) = 0 \<and>
   profitGrowth (yearlyStats zero_year_rows ! 1) = NaN"
proof -
  have len: "1 < length (yearlyStats zero_year_rows)"
    by (simp add: zero_year_rows_def eval_defs)
  show ?thesis
    using growth_after_zero_year [OF zero_less_one len]
    by (simp add: zero_year_rows_def eval_defs)
qed

section \<open>The order of the groups\<close>

subsection \<open>Keys are enumerated as the object orders them\<close>

lemma enum_before_trans:
  "comes_before idx k a \<Longrightarrow> enum_before idx a b \<Longrightarrow> enum_before idx k b"
  by (auto simp: comes_before_def enum_before_def split: option.splits)

lemma comes_before_enum: "comes_before idx k a \<Longrightarrow> enum_before idx k a"
  by (auto simp: comes_before_def enum_before_def split: option.splits)

lemma not_comes_before_enum:
  assumes inj: "\<And>a b n. idx a = Some n \<Longrightarrow> idx b = Some n \<Longrightarrow> a = b"
  shows "\<not> comes_before idx k a \<Longrightarrow> k \<noteq> a \<Longrightarrow> enum_before idx a k"
proof (cases "idx k")
  case None
  then show ?thesis by (simp add: enum_before_def split: option.splits)
next
  case (Some n)
  assume nb: "\<not> comes_before idx k a" and ne: "k \<noteq> a"
  from nb Some obtain m where m: "idx a = Some m" "\<not> n < m"
    by (auto simp: comes_before_def split: option.splits)
  have "m \<noteq> n" using inj [of a m k] m Some ne by auto
  then show ?thesis using m Some by (simp add: enum_before_def)
qed

lemma sorted_obj_define:
  assumes inj: "\<And>a b n. idx a = Some n \<Longrightarrow> idx b = Some n \<Longrightarrow> a = b"
  shows "sorted_wrt (enum_before idx) (map fst obj) \<Longrightarrow> k \<notin> fst ` set obj \<Longrightarrow>
         sorted_wrt (enum_before idx) (map fst (obj_define idx k v obj))"
proof (induction obj)
  case Nil
  show ?case by simp
next
  case (Cons p obj)
  obtain k' v' where p: "p = (k', v')" by (cases p)
  show ?case
  proof (cases "comes_before idx k k'")
    case True
    then show ?thesis
      using Cons.prems by (auto simp: p comes_before_enum intro: enum_before_trans)
  next
    case False
    have "k \<noteq> k'" using Cons.prems by (simp add: p)
    then have new: "enum_before idx k' k" using False inj by (simp add: not_comes_before_enum)
    have old: "\<forall>a \<in> fst ` set obj. enum_before idx k' a"
      using Cons.prems by (simp add: p)
    have rest: "sorted_wrt (enum_before idx) (map fst (obj_define idx k v obj))"
      using Cons by (simp add: p)
    have "\<forall>a \<in> fst ` set (obj_define idx k v obj). enum_before idx k' a"
      unfolding fst_obj_define using new old by blast
    then show ?thesis
      using rest False by (simp add: p)
  qed
qed

lemma sorted_group_add:
  assumes inj: "\<And>a b n. idx a = Some n \<Longrightarrow> idx b = Some n \<Longrightarrow> a = b"
  shows "sorted_wrt (enum_before idx) (map fst obj) \<Longrightarrow>
         sorted_wrt (enum_before idx) (map fst (group_add idx f obj x))"
  using inj by (simp add: group_add_def fst_group_push sorted_obj_define map_of_eq_None_iff)

lemma sorted_groupBy:
  assumes inj: "\<And>a b n. idx a = Some n \<Longrightarrow> idx b = Some n \<Longrightarrow> a = b"
  shows "sorted_wrt (enum_before idx) (map fst (groupBy idx f xs))"
  unfolding groupBy_def using inj
  by (induction xs rule: rev_induct) (simp_all add: sorted_group_add)


subsection \<open>Year keys\<close>

lemma year_index_inj: "year_index a = Some n \<Longrightarrow> year_index b = Some n \<Longrightarrow> a = b"
  by (auto simp: year_index_def split: option.splits if_splits)

lemma sorted_year_keys: "sorted_wrt (enum_before year_index) (map fst (year_groups data))"
  unfolding year_groups_def by (rule sorted_groupBy) (rule year_index_inj)

lemma keys_year_groups: "set (map fst (year_groups data)) = row_year ` set data"
  unfolding year_groups_def by (rule keys_groupBy)

lemma distinct_year_groups: "distinct (map fst (year_groups data))"
  unfolding year_groups_def by (rule distinct_groupBy)

text \<open>The order on keys when every valid year is an array index.\<close>

lemma nones_last:
  "sorted_wrt (\<lambda>a b. a = None \<longrightarrow> b = None) ks \<Longrightarrow>
   ks = filter (\<lambda>k. k \<noteq> None) ks @ filter (\<lambda>k. k = None) ks"
proof (induction ks)
  case Nil
  show ?case by simp
next
  case (Cons k ks)
  show ?case
  proof (cases k)
    case None
    then have "\<forall>b \<in> set ks. b = None" using Cons.prems by simp
    then have "filter (\<lambda>k. k \<noteq> None) ks = []" "filter (\<lambda>k. k = None) ks = ks"
      by (simp_all add: filter_empty_conv filter_id_conv)
    then show ?thesis using None by simp
  next
    case (Some y)
    then show ?thesis using Cons by simp
  qed
qed

lemma distinct_nones:
  "distinct ks \<Longrightarrow> filter (\<lambda>k. k = None) ks = (if None \<in> set ks then [None] else [])"
proof (induction ks)
  case Nil
  show ?case by simp
next
  case (Cons k ks)
  then show ?case by (cases k) (auto simp: filter_empty_conv)
qed

lemma somes_map_filter:
  "filter (\<lambda>k. k \<noteq> None) ks = map Some (List.map_filter id ks)"
  by (induction ks) (auto simp: List.map_filter_simps split: option.splits)

lemma set_map_filter_conv:
  "set (List.map_filter g xs) = {y. \<exists>x \<in> set xs. g x = Some y}"
  by (induction xs) (auto simp: List.map_filter_simps split: option.splits)

lemma getFullYear_Some: "getFullYear d = Some y \<longleftrightarrow> d = Date y"
  by (cases d) auto

lemma getFullYear_None: "getFullYear d = None \<longleftrightarrow> d = InvalidDate"
  by (cases d) auto

lemma year_keys_in_range:
  assumes "years_in_range data"
  shows "map fst (year_groups data) =
           map Some (sort (remdups (valid_years data))) @
           (if None \<in> row_year ` set data then [None] else [])"
proof -
  define ks where "ks = map fst (year_groups data)"
  define ys where "ys = List.map_filter id ks"
  have range: "\<forall>k \<in> set ks. case k of None \<Rightarrow> True | Some y \<Rightarrow> year_index k = Some (nat y) \<and> 0 \<le> y"
    using assms unfolding ks_def keys_year_groups
    by (auto simp: years_in_range_def list_all_iff row_year_def year_index_def getFullYear_Some
          split: js_date.splits option.splits)
  have sorted: "sorted_wrt (enum_before year_index) ks"
    unfolding ks_def by (rule sorted_year_keys)
  have dist: "distinct ks" unfolding ks_def by (rule distinct_year_groups)
  have order: "sorted_wrt (\<lambda>a b. (a = None \<longrightarrow> b = None) \<and>
                 (\<forall>x y. a = Some x \<longrightarrow> b = Some y \<longrightarrow> x < y)) ks"
    using sorted
  proof (rule sorted_wrt_mono_rel [rotated])
    fix a b assume a: "a \<in> set ks" and b: "b \<in> set ks" and ab: "enum_before year_index a b"
    show "(a = None \<longrightarrow> b = None) \<and> (\<forall>x y. a = Some x \<longrightarrow> b = Some y \<longrightarrow> x < y)"
      using range a b ab
      by (cases a; cases b) (auto simp: enum_before_def year_index_def split: if_splits)
  qed
  define rest :: "int option list" where "rest = (if None \<in> set ks then [None] else [])"
  have split: "ks = map Some ys @ rest"
  proof -
    have "sorted_wrt (\<lambda>a b. a = None \<longrightarrow> b = None) ks"
      using order by (rule sorted_wrt_mono_rel [rotated]) simp
    then have parts: "ks = filter (\<lambda>k. k \<noteq> None) ks @ filter (\<lambda>k. k = None) ks"
      by (rule nones_last)
    have nones: "filter (\<lambda>k. k = None) ks = (if None \<in> set ks then [None] else [])"
      using dist by (rule distinct_nones)
    have somes: "filter (\<lambda>k. k \<noteq> None) ks = map Some ys"
      unfolding ys_def by (rule somes_map_filter)
    from parts show ?thesis unfolding nones somes rest_def .
  qed
  have "sorted_wrt (\<lambda>a b. \<forall>x y. a = Some x \<longrightarrow> b = Some y \<longrightarrow> x < y) (map Some ys)"
  proof -
    have "sorted_wrt (\<lambda>a b. \<forall>x y. a = Some x \<longrightarrow> b = Some y \<longrightarrow> x < y) ks"
      using order by (rule sorted_wrt_mono_rel [rotated]) simp
    then show ?thesis unfolding split by (simp add: sorted_wrt_append)
  qed
  then have strict: "sorted_wrt (<) ys" by (simp add: sorted_wrt_map)
  have set_ys: "set ys = set (valid_years data)"
  proof -
    have "set ys = {y. Some y \<in> set ks}"
      by (auto simp: ys_def set_map_filter_conv)
    also have "\<dots> = set (valid_years data)"
      unfolding ks_def keys_year_groups by (auto simp: valid_years_def set_map_filter_conv image_iff) (metis+)
    finally show ?thesis .
  qed
  have sorted_ys: "sort (remdups (valid_years data)) = ys"
  proof (rule sorted_distinct_set_unique)
    show "sorted ys" using strict by (simp add: strict_sorted_iff)
    show "distinct ys" using strict by (simp add: strict_sorted_iff)
  qed (simp_all add: set_ys)
  have rest: "rest = (if None \<in> row_year ` set data then [None] else [])"
    unfolding rest_def ks_def keys_year_groups ..
  from split show ?thesis unfolding sorted_ys rest ks_def .
qed

subsection \<open>The years of the two year tables\<close>

lemma year_yearlyStats:
  "map year (yearlyStats data) = map parseInt (map fst (year_groups data))"
  by (simp add: yearlyStats_def year_calc_growth yearlyStats0_def case_prod_unfold comp_def)

lemma invalid_date_iff: "None \<in> row_year ` set data \<longleftrightarrow> InvalidDate \<in> Order_Date ` set data"
  by (auto simp: row_year_def image_iff) (metis getFullYear_None)+

lemma years_of_yearlyStats:
  assumes "years_in_range data"
  shows "map year (yearlyStats data) =
           map (\<lambda>y. Fin (of_int y)) (sort (remdups (valid_years data))) @
           (if InvalidDate \<in> Order_Date ` set data then [NaN] else [])"
  by (simp add: year_yearlyStats year_keys_in_range [OF assms] invalid_date_iff comp_def)

lemma subcat_key_absent:
  "c \<notin> Sub_Category ` set rows \<Longrightarrow>
   map_of (map (\<lambda>(c, g). (c, Fin (sumBy Sales g))) (subcat_groups rows)) c = None"
proof -
  assume "c \<notin> Sub_Category ` set rows"
  then have "c \<notin> set (map fst (subcat_groups rows))"
    unfolding subcat_groups_def keys_groupBy .
  then show ?thesis
    by (simp add: map_of_eq_None_iff image_iff case_prod_unfold del: set_map) force
qed

lemma year_group_subset:
  "(y, g) \<in> set (year_groups data) \<Longrightarrow> set g \<subseteq> set data"
  by (auto simp: year_groups_def groupBy_entry)

lemma trend_year:
  assumes "\<forall>r \<in> set data. Sub_Category r \<noteq> ''year''"
  shows "map (\<lambda>t. t ''year'') (subCategoryTrendsData data) =
         map (\<lambda>k. Some (parseInt k)) (map fst (year_groups data))"
proof -
  have "\<forall>p \<in> set (year_groups data). trend_row_of (fst p) (snd p) ''year'' = Some (parseInt (fst p))"
  proof
    fix p assume p: "p \<in> set (year_groups data)"
    then have "set (snd p) \<subseteq> set data" using year_group_subset [of "fst p" "snd p"] by simp
    then have "''year'' \<notin> Sub_Category ` set (snd p)" using assms by auto
    then show "trend_row_of (fst p) (snd p) ''year'' = Some (parseInt (fst p))"
      by (simp add: trend_row_of_def map_add_def subcat_key_absent)
  qed
  then show ?thesis
    by (simp add: subCategoryTrendsData_def case_prod_unfold comp_def)
qed

text \<open>
  C4, as the specification states it, does not hold. \<^verbatim>\<open>loadData\<close> never sorts by year: the
  order of both tables is the order in which the grouping object enumerates its keys. The
  key \<^verbatim>\<open>"-1"\<close> is not an array index, so the year \<open>-1\<close> comes after 2020.
\<close>

theorem years_not_ascending:
  "map year (yearlyStats bce_rows) = [Fin 2020, Fin (- 1)] \<and>
   length (subCategoryTrendsData bce_rows) = 2 \<and>
   (subCategoryTrendsData bce_rows ! 0) ''year'' = Some (Fin 2020) \<and>
   (subCategoryTrendsData bce_rows ! 1) ''year'' = Some (Fin (- 1)) \<and>
   js_lt (Fin (- 1)) (Fin 2020)"
  by (simp add: bce_rows_def eval_defs)

text \<open>
  C4, amended: when every valid order date has a year from 0 to \<open>2^32 - 2\<close>, the years of
  the yearly statistics are the distinct years of the rows in ascending order, followed by
  one entry with the year \<open>NaN\<close> if some order date is invalid. When moreover no
  sub-category is called \<^verbatim>\<open>year\<close>, the \<^verbatim>\<open>year\<close> properties of the trend rows are the
  same list. This order is the enumeration order of the keys; no sorting step precedes
  the growth pass.
\<close>

theorem years_ascending_in_range:
  assumes "years_in_range data"
  shows "map year (yearlyStats data) =
           map (\<lambda>y. Fin (of_int y)) (sort (remdups (valid_years data))) @
           (if InvalidDate \<in> Order_Date ` set data then [NaN] else []) \<and>
         ((\<forall>r \<in> set data. Sub_Category r \<noteq> ''year'') \<longrightarrow>
          map (\<lambda>t. t ''year'') (subCategoryTrendsData data) =
            map (\<lambda>y. Some (Fin (of_int y))) (sort (remdups (valid_years data))) @
            (if InvalidDate \<in> Order_Date ` set data then [Some NaN] else []))"
  by (simp add: years_of_yearlyStats [OF assms] trend_year year_keys_in_range [OF assms]
        invalid_date_iff comp_def)

text \<open>C4, amended, on the example: the years 2020 and 2021 in both tables.\<close>

theorem years_ascending_in_range_witness:
  "years_in_range example_rows \<and>
   map year (yearlyStats example_rows) = [Fin 2020, Fin 2021] \<and>
   list_all (\<lambda>r. Sub_Category r \<noteq> ''year'') example_rows \<and>
   map (\<lambda>t. t ''year'') (subCategoryTrendsData example_rows) = [Some (Fin 2020), Some (Fin 2021)]"
proof -
  have r: "years_in_range example_rows"
    by (simp add: years_in_range_def example_rows_def)
  show ?thesis
    using years_ascending_in_range [OF r]
    by (simp add: example_rows_def years_in_range_def valid_years_def row_year_def)
qed




section \<open>The sub-category statistics\<close>

subsection \<open>First-seen order of the keys that are not array indices\<close>

lemma obj_define_append: "idx k = None \<Longrightarrow> obj_define idx k v obj = obj @ [(k, v)]"
  by (induction obj) (auto simp: comes_before_def)

lemma first_index_append: "a \<in> set xs \<Longrightarrow> first_index (xs @ ys) a = first_index xs a"
  by (induction xs) (auto simp: first_index_def)

lemma first_index_less: "a \<in> set xs \<Longrightarrow> first_index xs a < length xs"
  by (induction xs) (auto simp: first_index_def)

lemma first_index_new: "a \<notin> set xs \<Longrightarrow> first_index (xs @ [a]) a = length xs"
  by (induction xs) (auto simp: first_index_def)

lemma keys_first_seen:
  "\<forall>x \<in> set xs. idx (f x) = None \<Longrightarrow>
   sorted_wrt (\<lambda>a b. first_index (map f xs) a < first_index (map f xs) b)
     (map fst (groupBy idx f xs))"
proof (induction xs rule: rev_induct)
  case Nil
  show ?case by (simp add: groupBy_def)
next
  case (snoc x xs)
  let ?ks = "map fst (groupBy idx f xs)"
  have step: "groupBy idx f (xs @ [x]) = group_add idx f (groupBy idx f xs) x"
    by (simp add: groupBy_def)
  have keys: "set ?ks = set (map f xs)" using keys_groupBy [of idx f xs] by simp
  have "sorted_wrt (\<lambda>a b. first_index (map f xs) a < first_index (map f xs) b) ?ks"
    using snoc by simp
  then have old: "sorted_wrt (\<lambda>a b. first_index (map f (xs @ [x])) a
                                     < first_index (map f (xs @ [x])) b) ?ks"
  proof (rule sorted_wrt_mono_rel [rotated])
    fix a b assume "a \<in> set ?ks" "b \<in> set ?ks"
      and "first_index (map f xs) a < first_index (map f xs) b"
    then show "first_index (map f (xs @ [x])) a < first_index (map f (xs @ [x])) b"
      unfolding keys by (simp add: first_index_append)
  qed
  show ?case
  proof (cases "f x \<in> set ?ks")
    case True
    then have "map_of (groupBy idx f xs) (f x) \<noteq> None"
      by (simp add: map_of_eq_None_iff)
    then have "map fst (groupBy idx f (xs @ [x])) = ?ks"
      by (auto simp: step group_add_def fst_group_push)
    then show ?thesis using old by simp
  next
    case False
    then have none: "map_of (groupBy idx f xs) (f x) = None"
      by (simp add: map_of_eq_None_iff)
    have "idx (f x) = None" using snoc.prems by simp
    then have new: "map fst (groupBy idx f (xs @ [x])) = ?ks @ [f x]"
      by (simp add: step group_add_def none obj_define_append)
    have "\<forall>a \<in> set ?ks. first_index (map f (xs @ [x])) a < first_index (map f (xs @ [x])) (f x)"
    proof
      fix a assume a: "a \<in> set ?ks"
      then have "first_index (map f (xs @ [x])) a = first_index (map f xs) a"
        unfolding keys by (simp add: first_index_append)
      moreover have "first_index (map f xs) a < length (map f xs)"
        using a unfolding keys by (rule first_index_less)
      moreover have "first_index (map f (xs @ [x])) (f x) = length (map f xs)"
        using False unfolding keys by (simp add: first_index_new del: set_map)
      ultimately show "first_index (map f (xs @ [x])) a < first_index (map f (xs @ [x])) (f x)"
        by simp
    qed
    then show ?thesis using old unfolding new by (simp add: sorted_wrt_append)
  qed
qed

subsection \<open>The descending sort keeps ties in their order\<close>

lemma insort_key_keeps_order:
  "sorted_wrt (\<lambda>a b. key a = key b \<longrightarrow> P a b) ys \<Longrightarrow>
   \<forall>y \<in> set ys. key x = key y \<longrightarrow> P x y \<Longrightarrow>
   sorted_wrt (\<lambda>a b. key a = key b \<longrightarrow> P a b) (insort_key key x ys)"
  by (induction ys) (auto simp: set_insort_key)

lemma sort_key_keeps_order:
  "sorted_wrt P xs \<Longrightarrow> sorted_wrt (\<lambda>a b. key a = key b \<longrightarrow> P a b) (sort_key key xs)"
  by (induction xs) (auto simp: insort_key_keeps_order)

lemma orderBy_desc_sorted: "sorted_wrt (\<lambda>a b. f b \<le> f a) (orderBy_desc f xs)"
proof -
  have "sorted (map (\<lambda>x. - f x) (sort_key (\<lambda>x. - f x) xs))" by (rule sorted_sort_key)
  then show ?thesis by (simp add: orderBy_desc_def sorted_map)
qed

lemma orderBy_desc_stable:
  assumes "sorted_wrt P xs"
  shows "sorted_wrt (\<lambda>a b. f a = f b \<longrightarrow> P a b) (orderBy_desc f xs)"
  using sort_key_keeps_order [OF assms, of "\<lambda>x. - f x"] by (simp add: orderBy_desc_def)

lemma names_subCategoryStats0:
  "map sc_name (subCategoryStats0 data) = map fst (subcat_groups data)"
  by (simp add: subCategoryStats0_def case_prod_unfold comp_def)

text \<open>
  C5, as the specification states it, does not hold. Both sub-categories have sales of 10
  and \<^verbatim>\<open>Chairs\<close> is seen first, but the key \<^verbatim>\<open>7\<close> is an array index, which the grouping
  object enumerates before every other key; the stable sort keeps that order.
\<close>

theorem numeric_label_first:
  "map sc_name (subCategoryStats numeric_label_rows) = [''7'', ''Chairs''] \<and>
   map sc_value (subCategoryStats numeric_label_rows) = [10, 10] \<and>
   first_index (map Sub_Category numeric_label_rows) ''Chairs'' = 0 \<and>
   first_index (map Sub_Category numeric_label_rows) ''7'' = 1"
  by (simp add: numeric_label_rows_def first_index_def eval_defs)

text \<open>
  C5, amended: the sub-category statistics are sorted non-increasing by total sales for
  every input. When no sub-category name is the decimal text of an array index, two
  sub-categories with equal total sales appear in the order in which they are first seen
  in the input.
\<close>

theorem subcategory_order:
  "sorted_wrt (\<lambda>a b. sc_value b \<le> sc_value a) (subCategoryStats data) \<and>
   ((\<forall>r \<in> set data. array_index (Sub_Category r) = None) \<longrightarrow>
    sorted_wrt (\<lambda>a b. sc_value a = sc_value b \<longrightarrow>
                  first_index (map Sub_Category data) (sc_name a)
                    < first_index (map Sub_Category data) (sc_name b))
      (subCategoryStats data))"
proof (intro conjI impI)
  show "sorted_wrt (\<lambda>a b. sc_value b \<le> sc_value a) (subCategoryStats data)"
    unfolding subCategoryStats_def by (rule orderBy_desc_sorted)
next
  assume "\<forall>r \<in> set data. array_index (Sub_Category r) = None"
  then have "sorted_wrt (\<lambda>a b. first_index (map Sub_Category data) a
                               < first_index (map Sub_Category data) b)
               (map fst (subcat_groups data))"
    unfolding subcat_groups_def by (rule keys_first_seen)
  then have "sorted_wrt (\<lambda>a b. first_index (map Sub_Category data) (sc_name a)
                               < first_index (map Sub_Category data) (sc_name b))
               (subCategoryStats0 data)"
    by (simp add: names_subCategoryStats0 [symmetric] sorted_wrt_map)
  then show "sorted_wrt (\<lambda>a b. sc_value a = sc_value b \<longrightarrow>
                  first_index (map Sub_Category data) (sc_name a)
                    < first_index (map Sub_Category data) (sc_name b))
      (subCategoryStats data)"
    unfolding subCategoryStats_def by (rule orderBy_desc_stable)
qed

text \<open>
  C5, amended, on three sub-categories: \<^verbatim>\<open>Chairs\<close> and \<^verbatim>\<open>Bookcases\<close> tie and keep the
  order of the input.
\<close>

theorem subcategory_order_witness:
  "list_all (\<lambda>r. array_index (Sub_Category r) = None) tie_rows \<and>
   map sc_name (subCategoryStats tie_rows) = [''Tables'', ''Chairs'', ''Bookcases''] \<and>
   map sc_value (subCategoryStats tie_rows) = [20, 10, 10] \<and>
   first_index (map Sub_Category tie_rows) ''Chairs''
     < first_index (map Sub_Category tie_rows) ''Bookcases''"
  using subcategory_order [of tie_rows]
  by (simp add: tie_rows_def first_index_def eval_defs)

section \<open>The trend rows\<close>

lemma map_of_sums:
  "map_of (map (\<lambda>(c, g). (c, Fin (sumBy Sales g))) (subcat_groups rows)) c =
     (if c \<in> Sub_Category ` set rows
      then Some (Fin (sumBy Sales (filter (\<lambda>x. Sub_Category x = c) rows))) else None)"
proof -
  have "map_of (map (\<lambda>(c, g). (c, Fin (sumBy Sales g))) (subcat_groups rows)) c =
        map_option (\<lambda>g. Fin (sumBy Sales g)) (map_of (subcat_groups rows) c)"
    by (simp add: map_of_map)
  then show ?thesis by (simp add: subcat_groups_def map_of_groupBy)
qed

lemma trend_row_present:
  "c \<in> Sub_Category ` set rows \<Longrightarrow>
   trend_row_of y rows c = Some (Fin (sumBy Sales (filter (\<lambda>x. Sub_Category x = c) rows)))"
  by (simp add: trend_row_of_def map_add_def map_of_sums)

lemma trend_row_absent:
  "c \<notin> Sub_Category ` set rows \<Longrightarrow> c \<noteq> ''year'' \<Longrightarrow> trend_row_of y rows c = None"
  by (simp add: trend_row_of_def map_add_def map_of_sums)

lemma trend_row_of_group:
  assumes "(y, g) \<in> set (year_groups data)" and "c \<noteq> ''year''"
  shows "trend_row_of y g c =
           (if \<exists>r \<in> set data. row_year r = y \<and> Sub_Category r = c
            then Some (Fin (sum_list (map Sales
                   (filter (\<lambda>r. row_year r = y \<and> Sub_Category r = c) data))))
            else None)"
proof -
  have g: "g = filter (\<lambda>r. row_year r = y) data"
    using assms(1) by (simp add: year_groups_def groupBy_entry)
  have mem: "c \<in> Sub_Category ` set g \<longleftrightarrow> (\<exists>r \<in> set data. row_year r = y \<and> Sub_Category r = c)"
    unfolding g by auto
  have "filter (\<lambda>x. Sub_Category x = c) g = filter (\<lambda>r. row_year r = y \<and> Sub_Category r = c) data"
    unfolding g by (simp add: conj_commute)
  then show ?thesis
    using mem assms(2) by (simp add: trend_row_present trend_row_absent sumBy_def)
qed

text \<open>
  C6, as the specification states it, does not hold for the name \<^verbatim>\<open>year\<close>. The row is one
  object for the year and the sums: the row of 2021 has the key \<^verbatim>\<open>year\<close> although no row
  of 2021 has that sub-category, which occurs in 2020 only (where its sum of 5 replaces
  the year).
\<close>

theorem year_key_in_every_row:
  "map fst (year_groups year_label_rows) = [Some 2020, Some 2021] \<and>
   length (subCategoryTrendsData year_label_rows) = 2 \<and>
   (subCategoryTrendsData year_label_rows ! 1) ''year'' = Some (Fin 2021) \<and>
   (subCategoryTrendsData year_label_rows ! 0) ''year'' = Some (Fin 5) \<and>
   map row_year year_label_rows = [Some 2020, Some 2021] \<and>
   map Sub_Category year_label_rows = [''year'', ''Chairs'']"
  by (simp add: year_label_rows_def eval_defs)

text \<open>
  C6, amended: there is one trend row per year of the input, and for every name other than
  \<^verbatim>\<open>year\<close> the row of a year has that key if and only if some row of that year has that
  sub-category; its value is then the sum of the sales of those rows. A sub-category that
  is absent from a year is omitted from the row of that year.
\<close>

theorem trend_rows_sparse:
  "distinct (map fst (year_groups data)) \<and>
   set (map fst (year_groups data)) = row_year ` set data \<and>
   list_all2
     (\<lambda>y t. \<forall>c. c \<noteq> ''year'' \<longrightarrow>
        t c = (if \<exists>r \<in> set data. row_year r = y \<and> Sub_Category r = c
               then Some (Fin (sum_list (map Sales
                      (filter (\<lambda>r. row_year r = y \<and> Sub_Category r = c) data))))
               else None))
     (map fst (year_groups data)) (subCategoryTrendsData data)"
proof -
  have "\<forall>p \<in> set (year_groups data). \<forall>c. c \<noteq> ''year'' \<longrightarrow>
          trend_row_of (fst p) (snd p) c =
            (if \<exists>r \<in> set data. row_year r = fst p \<and> Sub_Category r = c
             then Some (Fin (sum_list (map Sales
                    (filter (\<lambda>r. row_year r = fst p \<and> Sub_Category r = c) data))))
             else None)"
  proof (intro ballI allI impI)
    fix p c assume p: "p \<in> set (year_groups data)" and c: "c \<noteq> ''year''"
    from p have "(fst p, snd p) \<in> set (year_groups data)" by simp
    then show "trend_row_of (fst p) (snd p) c =
            (if \<exists>r \<in> set data. row_year r = fst p \<and> Sub_Category r = c
             then Some (Fin (sum_list (map Sales
                    (filter (\<lambda>r. row_year r = fst p \<and> Sub_Category r = c) data))))
             else None)"
      using c by (rule trend_row_of_group)
  qed
  then have "list_all2
     (\<lambda>y t. \<forall>c. c \<noteq> ''year'' \<longrightarrow>
        t c = (if \<exists>r \<in> set data. row_year r = y \<and> Sub_Category r = c
               then Some (Fin (sum_list (map Sales
                      (filter (\<lambda>r. row_year r = y \<and> Sub_Category r = c) data))))
               else None))
     (map fst (year_groups data)) (subCategoryTrendsData data)"
    by (simp add: subCategoryTrendsData_def list_all2_map1 list_all2_map2 list_all2_same
          case_prod_unfold)
  then show ?thesis
    using distinct_year_groups keys_year_groups by blast
qed

text \<open>
  C6, amended, on the example: \<^verbatim>\<open>Tables\<close> is a key of the row of 2020 and not of the row
  of 2021.
\<close>

theorem trend_rows_sparse_witness:
  "map fst (year_groups example_rows) = [Some 2020, Some 2021] \<and>
   ''Tables'' \<noteq> ''year'' \<and> ''Chairs'' \<noteq> ''year'' \<and>
   map (\<lambda>t. t ''Tables'') (subCategoryTrendsData example_rows) = [Some (Fin 50), None] \<and>
   map (\<lambda>t. t ''Chairs'') (subCategoryTrendsData example_rows) = [Some (Fin 100), Some (Fin 150)]"
  using trend_rows_sparse [of example_rows]
  by (simp add: example_rows_def eval_defs)

section \<open>Rows with an invalid date\<close>

lemma year_groups_entry:
  "(y, g) \<in> set (year_groups data) \<longleftrightarrow>
     y \<in> row_year ` set data \<and> g = filter (\<lambda>r. row_year r = y) data"
  unfolding year_groups_def by (rule groupBy_entry)

lemma subcat_groups_entry:
  "(c, g) \<in> set (subcat_groups data) \<longleftrightarrow>
     c \<in> Sub_Category ` set data \<and> g = filter (\<lambda>r. Sub_Category r = c) data"
  unfolding subcat_groups_def by (rule groupBy_entry)

lemma yearlyStats_of_group:
  assumes "(y, g) \<in> set (year_groups data)"
  shows "\<exists>e \<in> set (yearlyStats data).
           year e = parseInt y \<and> orders e = length g \<and> sales e = sumBy Sales g"
proof -
  obtain i where i: "i < length (year_groups data)" and p: "year_groups data ! i = (y, g)"
    using assms by (auto simp: in_set_conv_nth)
  have len: "i < length (yearlyStats0 data)" using i by (simp add: yearlyStats0_def)
  have e0: "yearlyStats0 data ! i =
     \<lparr> year = parseInt y, sales = sumBy Sales g, profit = sumBy Profit g, orders = length g,
       avgOrderValue = js_div (sumBy Sales g) (real (length g)),
       salesGrowth = Fin 0, profitGrowth = Fin 0 \<rparr>"
    using i by (simp add: yearlyStats0_def p)
  have "yearlyStats data ! i \<in> set (yearlyStats data)"
    using len by (simp add: yearlyStats_def length_calc_growth)
  moreover have "year (yearlyStats data ! i) = parseInt y \<and>
                 orders (yearlyStats data ! i) = length g \<and>
                 sales (yearlyStats data ! i) = sumBy Sales g"
    using len e0 by (auto simp: yearlyStats_def nth_calc_growth)
  ultimately show ?thesis by blast
qed

lemma invalid_rows: "filter (\<lambda>x. row_year x = None) data = filter (\<lambda>x. Order_Date x = InvalidDate) data"
  by (simp add: row_year_def getFullYear_None)

text \<open>
  C9, as the specification states it, does not hold. The row with the invalid date is
  neither rejected (no error is set) nor excluded: it is an entry of its own with the year
  \<open>NaN\<close> in the yearly statistics and in the trend rows, and it is counted in the
  sub-category statistics and in the totals.
\<close>

theorem invalid_date_row_kept:
  "error (loadData True 0 invalid_date_rows initial_dashboard) = None \<and>
   map year (yearlyData (loadData True 0 invalid_date_rows initial_dashboard)) = [Fin 2020, NaN] \<and>
   map orders (yearlyData (loadData True 0 invalid_date_rows initial_dashboard)) = [1, 1] \<and>
   map sc_orders (subCategoryData (loadData True 0 invalid_date_rows initial_dashboard)) = [2] \<and>
   (subCategoryTrends (loadData True 0 invalid_date_rows initial_dashboard) ! 1) ''Chairs''
     = Some (Fin 5) \<and>
   totalOrders (totalMetrics (loadData True 0 invalid_date_rows initial_dashboard)) = 2"
  by (simp add: invalid_date_rows_def eval_defs)

text \<open>
  C9, amended: a row whose order date does not parse is kept by every builder, and
  \<^verbatim>\<open>loadData\<close> finishes without an error. All such rows form one group with the year
  \<open>NaN\<close> in the yearly statistics and in the trend rows; the sub-category statistics and
  the totals, which do not read the date, count the row like any other.
\<close>

theorem invalid_date_rows_grouped:
  assumes "r \<in> set data" and "Order_Date r = InvalidDate"
  shows "error (loadData True 0 data st) = None \<and>
         (\<exists>e \<in> set (yearlyData (loadData True 0 data st)).
            year e = NaN \<and>
            orders e = length (filter (\<lambda>x. Order_Date x = InvalidDate) data) \<and>
            sales e = sum_list (map Sales (filter (\<lambda>x. Order_Date x = InvalidDate) data))) \<and>
         (\<exists>t \<in> set (subCategoryTrends (loadData True 0 data st)).
            t (Sub_Category r) =
              Some (Fin (sum_list (map Sales
                (filter (\<lambda>x. Order_Date x = InvalidDate \<and> Sub_Category x = Sub_Category r) data))))) \<and>
         (\<exists>s \<in> set (subCategoryData (loadData True 0 data st)).
            sc_name s = Sub_Category r \<and>
            sc_orders s = length (filter (\<lambda>x. Sub_Category x = Sub_Category r) data)) \<and>
         totalOrders (totalMetrics (loadData True 0 data st)) = length data"
proof -
  define g where "g = filter (\<lambda>x. Order_Date x = InvalidDate) data"
  have none: "row_year r = None" using assms(2) by (simp add: row_year_def)
  then have "None \<in> row_year ` set data" using assms(1) by (metis imageI)
  then have grp: "(None, g) \<in> set (year_groups data)"
    by (simp add: year_groups_entry g_def invalid_rows)
  have a: "\<exists>e \<in> set (yearlyStats data). year e = NaN \<and> orders e = length g \<and>
             sales e = sum_list (map Sales g)"
    using yearlyStats_of_group [OF grp] by (simp add: sumBy_def)
  have rg: "r \<in> set g" using assms by (simp add: g_def)
  have "trend_row_of None g (Sub_Category r) =
          Some (Fin (sumBy Sales (filter (\<lambda>x. Sub_Category x = Sub_Category r) g)))"
    using rg by (intro trend_row_present) simp
  moreover have "filter (\<lambda>x. Sub_Category x = Sub_Category r) g =
                 filter (\<lambda>x. Order_Date x = InvalidDate \<and> Sub_Category x = Sub_Category r) data"
    by (simp add: g_def conj_commute)
  moreover have "trend_row_of None g \<in> set (subCategoryTrendsData data)"
    using grp by (force simp: subCategoryTrendsData_def)
  ultimately have b: "\<exists>t \<in> set (subCategoryTrendsData data).
            t (Sub_Category r) =
              Some (Fin (sum_list (map Sales
                (filter (\<lambda>x. Order_Date x = InvalidDate \<and> Sub_Category x = Sub_Category r) data))))"
    by (auto simp: sumBy_def)
  have "(Sub_Category r, filter (\<lambda>x. Sub_Category x = Sub_Category r) data) \<in> set (subcat_groups data)"
    using assms(1) by (simp add: subcat_groups_entry)
  then have "\<lparr> sc_name = Sub_Category r,
            sc_value = sumBy Sales (filter (\<lambda>x. Sub_Category x = Sub_Category r) data),
            sc_profit = sumBy Profit (filter (\<lambda>x. Sub_Category x = Sub_Category r) data),
            sc_orders = length (filter (\<lambda>x. Sub_Category x = Sub_Category r) data) \<rparr>
          \<in> set (subCategoryStats0 data)"
    by (force simp: subCategoryStats0_def)
  then have c: "\<exists>s \<in> set (subCategoryStats data).
            sc_name s = Sub_Category r \<and>
            sc_orders s = length (filter (\<lambda>x. Sub_Category x = Sub_Category r) data)"
    by (force simp: subCategoryStats_def orderBy_desc_def)
  show ?thesis
    using a b c by (simp add: loadData_def calcTotalMetrics_def g_def)
qed

text \<open>C9, amended, on the two rows above, the first of which has the invalid date.\<close>

theorem invalid_date_rows_grouped_witness:
  "hd invalid_date_rows \<in> set invalid_date_rows \<and>
   Order_Date (hd invalid_date_rows) = InvalidDate \<and>
   error (loadData True 0 invalid_date_rows initial_dashboard) = None \<and>
   year (yearlyData (loadData True 0 invalid_date_rows initial_dashboard) ! 1) = NaN \<and>
   orders (yearlyData (loadData True 0 invalid_date_rows initial_dashboard) ! 1) = 1 \<and>
   sales (yearlyData (loadData True 0 invalid_date_rows initial_dashboard) ! 1) = 5 \<and>
   sc_orders (subCategoryData (loadData True 0 invalid_date_rows initial_dashboard) ! 0) = 2"
proof -
  have m: "hd invalid_date_rows \<in> set invalid_date_rows"
    by (simp add: invalid_date_rows_def)
  have d: "Order_Date (hd invalid_date_rows) = InvalidDate"
    by (simp add: invalid_date_rows_def)
  show ?thesis
    using invalid_date_rows_grouped [OF m d, of initial_dashboard]
    by (simp add: invalid_date_rows_def eval_defs)
qed

end
